theory Spec2Isabelle
  imports Complex_Main
begin

section \<open>rotate\_image\_to\_gif.py: eased rotation of an icon into an animated GIF\<close>

text \<open>
  The script has two functions: the timing function \<open>ease_in_out_sine\<close> and the generator
  \<open>create_eased_rotating_gif\<close>, which loads an image, builds a list of eased angles,
  rotates the image once per angle and saves the frames as one GIF.

  Conventions of the embedding:
  \<^item> a Python \<open>float\<close> is a \<open>real\<close> inside the range of a double, and \<open>math.pi\<close>,
    \<open>math.cos\<close> are \<open>pi\<close> and \<open>cos\<close>: arithmetic is exact where its result is in range,
    and a result out of range is the overflow the code has there (\<open>OverflowError\<close> from
    \<open>float(...)\<close>, \<open>ValueError\<close> from \<open>math.cos\<close> of an infinity); rounding inside the range
    is not part of this reading;
  \<^item> the timing function is read a second time, as \<open>ease_in_out_sine_double\<close>, in IEEE 754
    double precision: every operation rounds its exact result to the nearest double, ties
    to even;
  \<^item> a Python \<open>int\<close> is an \<open>int\<close>;
  \<^item> an exception is a value of \<open>py_error\<close>, returned as \<open>Inl\<close>;
  \<^item> the file system and the console are an explicit \<open>world\<close>, passed in and returned;
  \<^item> the imaging library (Pillow) is not part of the repository: what the script calls
    of it is a record of functions, \<open>pil\<close>, a parameter of the generator.
\<close>

subsection \<open>Exceptions and the range of a float\<close>

datatype py_error =
    FileNotFoundError
  | UnidentifiedImageError
  | ZeroDivisionError
  | OverflowError
  | ValueError
  | IndexError
  | PermissionError

text \<open>
  The largest double is \<open>2^1024 - 2^971\<close>. Rounding to nearest takes every real of
  magnitude below \<open>2^1024 - 2^970\<close> to a finite double, and every other real out of the
  range: \<open>float(n)\<close> raises there, a product becomes an infinity.
\<close>

definition float_overflow :: "real \<Rightarrow> bool" where
  "float_overflow x \<longleftrightarrow> 2 ^ 1024 - 2 ^ 970 \<le> \<bar>x\<bar>"

subsection \<open>The timing function\<close>

text \<open>
  \<^verbatim>\<open>return 0.5 * (1 - math.cos(math.pi * t))\<close>

  When the product \<open>math.pi * t\<close> overflows it is an infinity, and \<open>math.cos\<close> of an
  infinity raises \<open>ValueError\<close> (math domain error).
\<close>

definition ease_in_out_sine :: "real \<Rightarrow> py_error + real" where
  "ease_in_out_sine t =
     (if float_overflow (pi * t) then Inl ValueError
      else Inr (0.5 * (1 - cos (pi * t))))"

subsection \<open>The timing function in double precision\<close>

text \<open>
  A double has 53 significant bits, and the exponent of its last bit is at least \<open>-1074\<close>.
  \<open>round_even\<close> rounds a real to the nearest integer, ties to the even one;
  \<open>ulp_exponent x\<close> is the exponent of the last bit of a double of the magnitude of \<open>x\<close>
  (subnormal below \<open>2^-1022\<close>); \<open>round_double\<close> rounds a real to the nearest double.
\<close>

definition round_even :: "real \<Rightarrow> int" where
  "round_even x =
     (let n = \<lfloor>x\<rfloor>; r = x - of_int n
      in if r < 1 / 2 then n else if 1 / 2 < r then n + 1 else if even n then n else n + 1)"

definition ulp_exponent :: "real \<Rightarrow> int" where
  "ulp_exponent x = max \<lfloor>log 2 \<bar>x\<bar>\<rfloor> (- 1022) - 52"

definition round_double :: "real \<Rightarrow> real" where
  "round_double x =
     of_int (round_even (x / 2 powr of_int (ulp_exponent x))) * 2 powr of_int (ulp_exponent x)"

text \<open>\<open>math.pi\<close> is the double nearest to \<open>pi\<close>, \<open>0x1.921fb54442d18p+1\<close>.\<close>

definition math_pi :: real where
  "math_pi = 884279719003555 / 2 ^ 48"

text \<open>
  \<open>math.cos\<close> is the cosine of the C library, taken as correctly rounded.
\<close>

definition math_cos :: "real \<Rightarrow> real" where
  "math_cos x = round_double (cos x)"

text \<open>
  \<^verbatim>\<open>return 0.5 * (1 - math.cos(math.pi * t))\<close>, each operation rounded: the product, the
  cosine, the difference, the product with \<open>0.5\<close>. The argument stands for a double.
\<close>

definition ease_in_out_sine_double :: "real \<Rightarrow> py_error + real" where
  "ease_in_out_sine_double t =
     (if float_overflow (math_pi * t) then Inl ValueError
      else Inr (round_double (0.5 * round_double (1 - math_cos (round_double (math_pi * t))))))"

subsection \<open>The imaging library, the world\<close>

datatype resample_filter = NEAREST | BILINEAR | BICUBIC

text \<open>The keyword arguments of \<open>Image.save\<close> as the script passes them.\<close>

record 'img save_args =
  first_frame :: 'img
  save_all :: bool
  append_images :: "'img list"
  optimize :: bool
  format :: string
  duration :: int
  loop :: int

text \<open>
  The four library calls of the script. \<open>open_rgba\<close> is
  \<open>Image.open(...).convert("RGBA")\<close> on the content of a file, \<open>None\<close> when the content
  is not a decodable image; \<open>rotate_image img theta resample expand fillcolor\<close> is
  \<open>img.rotate(theta, resample=..., expand=..., fillcolor=...)\<close>; \<open>encode\<close> is what
  \<open>Image.save\<close> writes for the given arguments.
\<close>

record ('img, 'file) pil =
  open_rgba :: "'file \<Rightarrow> 'img option"
  size_of :: "'img \<Rightarrow> nat \<times> nat"
  rotate_image :: "'img \<Rightarrow> real \<Rightarrow> resample_filter \<Rightarrow> bool \<Rightarrow> nat \<times> nat \<times> nat \<times> nat \<Rightarrow> 'img"
  encode :: "'img save_args \<Rightarrow> 'file"

text \<open>What the final \<open>print\<close> reports.\<close>

record summary =
  s_path :: string
  s_size :: "nat \<times> nat"
  s_frames :: int
  s_duration :: int
  s_forever :: bool

record 'file world =
  files :: "string \<Rightarrow> 'file option"
  writable :: "string \<Rightarrow> bool"
  console :: "summary list"

subsection \<open>The generator\<close>

text \<open>\<open>Image.open(input_path).convert("RGBA")\<close>: a missing file and a file that is not an
  image raise; nothing is written.\<close>

definition load_image :: "('img, 'file) pil \<Rightarrow> 'file world \<Rightarrow> string \<Rightarrow> py_error + 'img" where
  "load_image P w input_path =
     (case files w input_path of
        None \<Rightarrow> Inl FileNotFoundError
      | Some content \<Rightarrow>
          (case open_rgba P content of
             None \<Rightarrow> Inl UnidentifiedImageError
           | Some img \<Rightarrow> Inr img))"

text \<open>\<open>float(n)\<close> of an \<open>int\<close>: raises when the integer is too large to convert.\<close>

definition py_float :: "int \<Rightarrow> py_error + real" where
  "py_float n = (if float_overflow (of_int n) then Inl OverflowError else Inr (of_int n))"

text \<open>
  \<open>i / x\<close> of an \<open>int\<close> by a \<open>float\<close>: the integer is converted first, then a zero divisor
  raises.
\<close>

definition truediv :: "int \<Rightarrow> real \<Rightarrow> py_error + real" where
  "truediv i x =
     (case py_float i of
        Inl e \<Rightarrow> Inl e
      | Inr a \<Rightarrow> if x = 0 then Inl ZeroDivisionError else Inr (a / x))"

text \<open>
  Step 2, the loop \<open>for i in range(n_frames)\<close> with the list \<open>angles\<close> as accumulator;
  the second argument is what is left of the range.
\<close>

fun angles_loop :: "int \<Rightarrow> int list \<Rightarrow> real list \<Rightarrow> py_error + real list" where
  "angles_loop n_frames [] angles = Inr angles"
| "angles_loop n_frames (i # rest) angles =
     (case py_float (n_frames - 1) of
        Inl e \<Rightarrow> Inl e
      | Inr d \<Rightarrow>
          (case truediv i d of
             Inl e \<Rightarrow> Inl e
           | Inr t \<Rightarrow>
               (case ease_in_out_sine t of
                  Inl e \<Rightarrow> Inl e
                | Inr eased_t \<Rightarrow>
                    (let theta = 360 * eased_t
                     in angles_loop n_frames rest (angles @ [theta])))))"

text \<open>\<open>range(n_frames)\<close> is \<open>0, ..., n_frames - 1\<close>, empty when \<open>n_frames \<le> 0\<close>.\<close>

definition build_angles :: "int \<Rightarrow> py_error + real list" where
  "build_angles n_frames = angles_loop n_frames [0 .. n_frames - 1] []"

text \<open>Step 3, the loop \<open>for theta in angles\<close> with the list \<open>frames\<close> as accumulator.\<close>

fun frames_loop :: "('img, 'file) pil \<Rightarrow> 'img \<Rightarrow> real list \<Rightarrow> 'img list \<Rightarrow> 'img list" where
  "frames_loop P original [] frames = frames"
| "frames_loop P original (theta # rest) frames =
     (let frame = rotate_image P original theta BICUBIC False (0, 0, 0, 0)
      in frames_loop P original rest (frames @ [frame]))"

definition build_frames :: "('img, 'file) pil \<Rightarrow> 'img \<Rightarrow> real list \<Rightarrow> 'img list" where
  "build_frames P original angles = frames_loop P original angles []"

text \<open>\<open>loop_param = 0 if loop_forever else 1\<close>\<close>

definition loop_param :: "bool \<Rightarrow> int" where
  "loop_param loop_forever = (if loop_forever then 0 else 1)"

text \<open>
  Step 4, \<open>frames[0].save(output_path, save_all=True, append_images=frames[1:], ...)\<close>:
  \<open>frames[0]\<close> raises on the empty list before \<open>save\<close> is called; \<open>save\<close> raises when
  the path cannot be written, and otherwise replaces the content of the file.
\<close>

definition save_gif ::
  "('img, 'file) pil \<Rightarrow> 'file world \<Rightarrow> 'img list \<Rightarrow> string \<Rightarrow> int \<Rightarrow> int \<Rightarrow> py_error + 'file world" where
  "save_gif P w frames output_path frame_duration_ms lp =
     (case frames of
        [] \<Rightarrow> Inl IndexError
      | f0 # others \<Rightarrow>
          if \<not> writable w output_path then Inl PermissionError
          else Inr (w\<lparr>files := (files w)(output_path \<mapsto>
                 encode P \<lparr>first_frame = f0, save_all = True, append_images = others,
                           optimize = True, format = ''GIF'',
                           duration = frame_duration_ms, loop = lp\<rparr>)\<rparr>))"

text \<open>
  The whole function. The result is the exception raised, if any, and the world after the
  call; an exception leaves the world as it was when it was raised.
\<close>

definition create_eased_rotating_gif ::
  "('img, 'file) pil \<Rightarrow> 'file world \<Rightarrow> string \<Rightarrow> string \<Rightarrow> int \<Rightarrow> int \<Rightarrow> bool
     \<Rightarrow> (py_error + unit) \<times> 'file world" where
  "create_eased_rotating_gif P w input_path output_path n_frames frame_duration_ms loop_forever =
     (case load_image P w input_path of
        Inl e \<Rightarrow> (Inl e, w)
      | Inr original \<Rightarrow>
          (let (wd, ht) = size_of P original in
           case build_angles n_frames of
             Inl e \<Rightarrow> (Inl e, w)
           | Inr angles \<Rightarrow>
               (let frames = build_frames P original angles;
                    lp = loop_param loop_forever
                in case save_gif P w frames output_path frame_duration_ms lp of
                     Inl e \<Rightarrow> (Inl e, w)
                   | Inr w' \<Rightarrow>
                       (Inr (),
                        w'\<lparr>console := console w' @
                             [\<lparr>s_path = output_path, s_size = (wd, ht), s_frames = n_frames,
                               s_duration = frame_duration_ms, s_forever = loop_forever\<rparr>]\<rparr>))))"

text \<open>
  Two abbreviations for the proofs: the value the timing function returns when it returns,
  and the angle that one pass of the loop of step 2 appends for the index \<open>i\<close> when the
  pass raises nothing, \<open>360.0 * ease_in_out_sine(i / float(n_frames - 1))\<close>.
\<close>

definition eased :: "real \<Rightarrow> real" where
  "eased t = 0.5 * (1 - cos (pi * t))"

definition angle_at :: "int \<Rightarrow> int \<Rightarrow> real" where
  "angle_at n_frames i = 360 * eased (of_int i / of_int (n_frames - 1))"

text \<open>A term of the series of the arc tangent, for the bounds on \<open>pi\<close>.\<close>

definition arctan_term :: "real \<Rightarrow> nat \<Rightarrow> real" where
  "arctan_term x k = 1 / real (k * 2 + 1) * x ^ (k * 2 + 1)"

subsection \<open>A small instance of the library\<close>

text \<open>
  An instance of the library interface on which the generator can be evaluated. An image is
  its size alone; a file holds an image, an animation as it was saved, or text. Rotation
  keeps the canvas unless \<open>expand\<close> is set, as Pillow documents it.
\<close>

datatype demo_file = Png "nat \<times> nat" | Gif "(nat \<times> nat) save_args" | Text

definition demo_pil :: "(nat \<times> nat, demo_file) pil" where
  "demo_pil =
     \<lparr>open_rgba = (\<lambda>f. case f of Png sz \<Rightarrow> Some sz | Gif a \<Rightarrow> Some (first_frame a) | Text \<Rightarrow> None),
      size_of = (\<lambda>sz. sz),
      rotate_image = (\<lambda>sz theta rs expand fill.
         if expand then (fst sz + snd sz, fst sz + snd sz) else sz),
      encode = Gif\<rparr>"

definition demo_world :: "demo_file world" where
  "demo_world =
     \<lparr>files = [''icon.png'' \<mapsto> Png (64, 48), ''notes.txt'' \<mapsto> Text],
      writable = (\<lambda>p. True),
      console = []\<rparr>"

section \<open>The range of a float\<close>

lemma float_overflow_ge: "\<bar>x\<bar> \<le> b \<Longrightarrow> b < 2 ^ 1024 - 2 ^ 970 \<Longrightarrow> \<not> float_overflow x"
  by (simp add: float_overflow_def)

lemma no_overflow_unit_pi:
  assumes "0 \<le> t" and "t \<le> 1"
  shows "\<not> float_overflow (pi * t)"
proof -
  have "pi * t \<le> pi * 1"
    using assms by (intro mult_left_mono) simp_all
  moreover have "0 \<le> pi * t"
    using assms by simp
  ultimately have "\<bar>pi * t\<bar> \<le> 4"
    using pi_less_4 by linarith
  then show ?thesis
    by (rule float_overflow_ge) simp
qed

lemma py_float_ok: "\<bar>real_of_int n\<bar> < 2 ^ 1024 - 2 ^ 970 \<Longrightarrow> py_float n = Inr (of_int n)"
  by (simp add: py_float_def float_overflow_def)

lemma py_float_overflow: "2 ^ 1024 - 2 ^ 970 \<le> \<bar>real_of_int n\<bar> \<Longrightarrow> py_float n = Inl OverflowError"
  by (simp add: py_float_def float_overflow_def)

section \<open>The timing function\<close>

lemma ease_in_out_sine_eased: "\<not> float_overflow (pi * t) \<Longrightarrow> ease_in_out_sine t = Inr (eased t)"
  by (simp add: ease_in_out_sine_def eased_def)

lemma ease_in_out_sine_unit: "0 \<le> t \<Longrightarrow> t \<le> 1 \<Longrightarrow> ease_in_out_sine t = Inr (eased t)"
  by (simp add: ease_in_out_sine_eased no_overflow_unit_pi)

lemma ease_in_out_sine_raises: "float_overflow (pi * t) \<Longrightarrow> ease_in_out_sine t = Inl ValueError"
  by (simp add: ease_in_out_sine_def)

lemma eased_range: "0 \<le> eased t \<and> eased t \<le> 1"
proof -
  have "cos (pi * t) \<le> 1" and "- 1 \<le> cos (pi * t)"
    by (rule cos_le_one, rule cos_ge_minus_one)
  then show ?thesis
    by (simp add: eased_def)
qed

lemma eased_mono:
  assumes "0 \<le> t1" and "t1 \<le> t2" and "t2 \<le> 1"
  shows "eased t1 \<le> eased t2"
proof -
  have "0 \<le> pi * t1"
    using assms by simp
  moreover have "pi * t1 \<le> pi * t2"
    using assms by (simp add: mult_left_mono)
  moreover have "pi * t2 \<le> pi"
    using assms mult_left_mono [of t2 1 pi] by simp
  ultimately have "cos (pi * t2) \<le> cos (pi * t1)"
    by (rule cos_monotone_0_pi_le)
  then show ?thesis
    by (simp add: eased_def)
qed

lemma eased_0: "eased 0 = 0"
  by (simp add: eased_def)

lemma eased_1: "eased 1 = 1"
  by (simp add: eased_def)

section \<open>The angle loop\<close>

lemma angles_loop_ok:
  assumes "2 \<le> n_frames" and "real_of_int (n_frames - 1) < 2 ^ 1024 - 2 ^ 970"
    and "\<forall>i \<in> set is. 0 \<le> i \<and> i \<le> n_frames - 1"
  shows "angles_loop n_frames is acc = Inr (acc @ map (angle_at n_frames) is)"
  using assms(3)
proof (induction "is" arbitrary: acc)
  case Nil
  then show ?case by simp
next
  case (Cons i rest)
  have d: "py_float (n_frames - 1) = Inr (of_int (n_frames - 1))"
    using assms(1,2) by (intro py_float_ok) simp
  have i: "0 \<le> i" "i \<le> n_frames - 1"
    using Cons.prems by simp_all
  then have "\<bar>real_of_int i\<bar> \<le> real_of_int (n_frames - 1)"
    by simp
  then have "py_float i = Inr (of_int i)"
    using assms(2) by (intro py_float_ok) linarith
  moreover have pos: "(0::real) < of_int (n_frames - 1)"
    using assms(1) by simp
  ultimately have t: "truediv i (of_int (n_frames - 1)) = Inr (of_int i / of_int (n_frames - 1))"
    by (simp add: truediv_def)
  have "0 \<le> (of_int i :: real) / of_int (n_frames - 1)"
    and "(of_int i :: real) / of_int (n_frames - 1) \<le> 1"
    using i pos by simp_all
  then have e: "ease_in_out_sine (of_int i / of_int (n_frames - 1))
      = Inr (eased (of_int i / of_int (n_frames - 1)))"
    by (rule ease_in_out_sine_unit)
  have "angles_loop n_frames rest (acc @ [angle_at n_frames i])
      = Inr ((acc @ [angle_at n_frames i]) @ map (angle_at n_frames) rest)"
    using Cons.prems by (intro Cons.IH) simp
  then show ?case
    by (simp add: d t e angle_at_def del: of_int_diff)
qed

lemma build_angles_ok:
  assumes "2 \<le> n_frames" and "real_of_int (n_frames - 1) < 2 ^ 1024 - 2 ^ 970"
  shows "build_angles n_frames = Inr (map (angle_at n_frames) [0 .. n_frames - 1])"
  using angles_loop_ok [OF assms, of "[0 .. n_frames - 1]" "[]"]
  by (simp add: build_angles_def)

lemma build_angles_single: "build_angles 1 = Inl ZeroDivisionError"
  by (simp add: build_angles_def upto.simps py_float_def truediv_def float_overflow_def)

lemma build_angles_empty: "n_frames < 1 \<Longrightarrow> build_angles n_frames = Inr []"
  by (simp add: build_angles_def)

lemma build_angles_overflow:
  assumes "2 \<le> n_frames" and "2 ^ 1024 - 2 ^ 970 \<le> real_of_int (n_frames - 1)"
  shows "build_angles n_frames = Inl OverflowError"
proof -
  have "[0 .. n_frames - 1] = 0 # [1 .. n_frames - 1]"
    using assms(1) by (simp add: upto_rec1)
  moreover have "py_float (n_frames - 1) = Inl OverflowError"
    using assms by (intro py_float_overflow) linarith
  ultimately show ?thesis
    by (simp add: build_angles_def)
qed

lemma angles_loop_length:
  "angles_loop n_frames is acc = Inr angles \<Longrightarrow> length angles = length acc + length is"
  by (induction "is" arbitrary: acc) (auto split: sum.splits)

lemma build_angles_length:
  assumes "build_angles n_frames = Inr angles"
  shows "length angles = nat n_frames"
  using angles_loop_length [of n_frames "[0 .. n_frames - 1]" "[]" angles] assms
  by (simp add: build_angles_def)

lemma angle_at_first: "angle_at n 0 = 0"
  by (simp add: angle_at_def eased_0)

lemma angle_at_last: "n \<noteq> 1 \<Longrightarrow> angle_at n (n - 1) = 360"
  by (simp add: angle_at_def eased_1)

lemma angle_at_range: "0 \<le> angle_at n i \<and> angle_at n i \<le> 360"
  using eased_range [of "of_int i / of_int (n - 1)"]
  by (simp add: angle_at_def)

lemma angle_at_mono:
  assumes "2 \<le> n" and "0 \<le> i" and "i \<le> j" and "j \<le> n - 1"
  shows "angle_at n i \<le> angle_at n j"
proof -
  have pos: "(0::real) < of_int (n - 1)"
    using assms by simp
  have "0 \<le> (of_int i :: real) / of_int (n - 1)"
    using assms pos by simp
  moreover have "(of_int i :: real) / of_int (n - 1) \<le> of_int j / of_int (n - 1)"
    using assms pos by (simp add: divide_right_mono)
  moreover have "(of_int j :: real) / of_int (n - 1) \<le> 1"
    using assms pos by simp
  ultimately have "eased (of_int i / of_int (n - 1)) \<le> eased (of_int j / of_int (n - 1))"
    by (rule eased_mono)
  then show ?thesis
    by (simp add: angle_at_def)
qed

lemma sorted_angles:
  assumes "2 \<le> n"
  shows "sorted (map (angle_at n) [0 .. n - 1])"
proof -
  have "sorted_wrt (\<lambda>i j. angle_at n i \<le> angle_at n j) [0 .. n - 1]"
  proof (rule sorted_wrt_mono_rel [where P = "(<)"])
    show "sorted_wrt (<) [0 .. n - 1]"
      by (rule sorted_wrt_upto)
  next
    fix i j
    assume "i \<in> set [0 .. n - 1]" and "j \<in> set [0 .. n - 1]" and "i < j"
    then show "angle_at n i \<le> angle_at n j"
      using assms by (intro angle_at_mono) simp_all
  qed
  then show ?thesis
    by (simp add: sorted_wrt_map)
qed

section \<open>The frame loop and the whole call\<close>

lemma frames_loop_eq:
  "frames_loop P original angles acc =
     acc @ map (\<lambda>theta. rotate_image P original theta BICUBIC False (0, 0, 0, 0)) angles"
  by (induction angles arbitrary: acc) simp_all

lemma build_frames_eq:
  "build_frames P original angles =
     map (\<lambda>theta. rotate_image P original theta BICUBIC False (0, 0, 0, 0)) angles"
  by (simp add: build_frames_def frames_loop_eq)

lemma create_load_fails:
  "load_image P w input_path = Inl e \<Longrightarrow>
   create_eased_rotating_gif P w input_path output_path n_frames d lf = (Inl e, w)"
  by (simp add: create_eased_rotating_gif_def)

lemma create_angles_fail:
  "load_image P w input_path = Inr original \<Longrightarrow> build_angles n_frames = Inl e \<Longrightarrow>
   create_eased_rotating_gif P w input_path output_path n_frames d lf = (Inl e, w)"
  by (simp add: create_eased_rotating_gif_def split: prod.splits)

lemma create_no_frames:
  "load_image P w input_path = Inr original \<Longrightarrow> build_angles n_frames = Inr [] \<Longrightarrow>
   create_eased_rotating_gif P w input_path output_path n_frames d lf = (Inl IndexError, w)"
  by (simp add: create_eased_rotating_gif_def build_frames_def save_gif_def split: prod.splits)

lemma create_success:
  assumes "fst (create_eased_rotating_gif P w input_path output_path n_frames d lf) = Inr ()"
  shows "\<exists>original angles f0 others.
           load_image P w input_path = Inr original \<and>
           build_angles n_frames = Inr angles \<and>
           build_frames P original angles = f0 # others \<and>
           files (snd (create_eased_rotating_gif P w input_path output_path n_frames d lf)) output_path =
             Some (encode P \<lparr>first_frame = f0, save_all = True, append_images = others,
                           optimize = True, format = ''GIF'', duration = d, loop = loop_param lf\<rparr>)"
  using assms
  by (auto simp: create_eased_rotating_gif_def save_gif_def Let_def
           split: sum.splits prod.splits list.splits if_splits)

lemma build_frames_length: "length (build_frames P original angles) = length angles"
  by (simp add: build_frames_eq)

lemma build_frames_sized:
  assumes "\<forall>img theta rs fill. size_of P (rotate_image P img theta rs False fill) = size_of P img"
  shows "\<forall>f \<in> set (build_frames P original angles). size_of P f = size_of P original"
  using assms by (auto simp: build_frames_eq)

section \<open>The small instance, evaluated\<close>

lemma demo_load: "load_image demo_pil demo_world ''icon.png'' = Inr (64, 48)"
  by (simp add: load_image_def demo_pil_def demo_world_def)

lemma demo_load_missing: "load_image demo_pil demo_world ''missing.png'' = Inl FileNotFoundError"
  by (simp add: load_image_def demo_pil_def demo_world_def)

lemma demo_load_text: "load_image demo_pil demo_world ''notes.txt'' = Inl UnidentifiedImageError"
  by (simp add: load_image_def demo_pil_def demo_world_def)

lemma demo_writable: "writable demo_world p"
  by (simp add: demo_world_def)

lemma demo_run_ok:
  "fst (create_eased_rotating_gif demo_pil demo_world ''icon.png'' ''out.gif'' 3 100 False) = Inr ()"
  by (simp add: create_eased_rotating_gif_def demo_load build_angles_ok [of 3] build_frames_eq
        upto.simps save_gif_def demo_writable)

lemma demo_canvas:
  "\<forall>img theta rs fill.
     size_of demo_pil (rotate_image demo_pil img theta rs False fill) = size_of demo_pil img"
  by (simp add: demo_pil_def)

section \<open>Rounding to a double\<close>

lemma round_even_err: "\<bar>of_int (round_even x) - x\<bar> \<le> 1 / 2"
proof -
  have "of_int \<lfloor>x\<rfloor> \<le> x" and "x < of_int \<lfloor>x\<rfloor> + 1"
    by linarith+
  then show ?thesis
    by (auto simp: round_even_def Let_def)
qed

lemma round_even_of_int: "round_even (of_int k) = k"
  by (simp add: round_even_def)

lemma round_even_between:
  assumes "of_int k - 1 / 2 < x" and "x < of_int k + 1 / 2"
  shows "round_even x = k"
proof -
  have "\<bar>of_int (round_even x) - x\<bar> \<le> 1 / 2"
    by (rule round_even_err)
  then have "\<bar>real_of_int (round_even x) - of_int k\<bar> < 1"
    using assms by linarith
  then have "\<bar>real_of_int (round_even x - k)\<bar> < 1"
    by simp
  then have "\<bar>round_even x - k\<bar> < 1"
    by linarith
  then show ?thesis
    by simp
qed

lemma round_double_err: "\<bar>round_double x - x\<bar> \<le> 2 powr of_int (ulp_exponent x) / 2"
proof -
  let ?u = "2 powr of_int (ulp_exponent x) :: real"
  have u: "0 < ?u"
    by simp
  have "\<bar>of_int (round_even (x / ?u)) - x / ?u\<bar> \<le> 1 / 2"
    by (rule round_even_err)
  then have "\<bar>of_int (round_even (x / ?u)) - x / ?u\<bar> * ?u \<le> 1 / 2 * ?u"
    using u by (intro mult_right_mono) simp_all
  moreover have "\<bar>of_int (round_even (x / ?u)) - x / ?u\<bar> * ?u
      = \<bar>of_int (round_even (x / ?u)) * ?u - x\<bar>"
  proof -
    have "\<bar>of_int (round_even (x / ?u)) - x / ?u\<bar> * ?u
        = \<bar>(of_int (round_even (x / ?u)) - x / ?u) * ?u\<bar>"
      using u by (simp add: abs_mult)
    also have "(of_int (round_even (x / ?u)) - x / ?u) * ?u = of_int (round_even (x / ?u)) * ?u - x"
      using u by (simp add: left_diff_distrib)
    finally show ?thesis .
  qed
  ultimately show ?thesis
    by (simp add: round_double_def)
qed

lemma ulp_le:
  assumes "x \<noteq> 0"
  shows "2 powr of_int (ulp_exponent x) \<le> \<bar>x\<bar> / 2 ^ 52 + 2 powr (- 1074)"
proof (cases "\<lfloor>log 2 \<bar>x\<bar>\<rfloor> \<le> - 1022")
  case True
  then have "ulp_exponent x = - 1074"
    by (simp add: ulp_exponent_def)
  then show ?thesis
    by simp
next
  case False
  then have e: "ulp_exponent x = \<lfloor>log 2 \<bar>x\<bar>\<rfloor> - 52"
    by (simp add: ulp_exponent_def)
  have "2 powr of_int \<lfloor>log 2 \<bar>x\<bar>\<rfloor> \<le> 2 powr (log 2 \<bar>x\<bar>)"
    by (intro powr_mono) simp_all
  also have "\<dots> = \<bar>x\<bar>"
    using assms by simp
  finally have "2 powr of_int \<lfloor>log 2 \<bar>x\<bar>\<rfloor> \<le> \<bar>x\<bar>" .
  moreover have "(2::real) powr of_int (\<lfloor>log 2 \<bar>x\<bar>\<rfloor> - 52) = 2 powr of_int \<lfloor>log 2 \<bar>x\<bar>\<rfloor> / 2 ^ 52"
    by (simp add: powr_diff)
  ultimately have "2 powr of_int (ulp_exponent x) \<le> \<bar>x\<bar> / 2 ^ 52"
    by (simp add: e divide_right_mono)
  moreover have "(0::real) \<le> 2 powr (- 1074)"
    by simp
  ultimately show ?thesis
    by linarith
qed

lemma round_double_0: "round_double 0 = 0"
  by (simp add: round_double_def round_even_def)

lemma round_double_rel:
  "\<bar>round_double x - x\<bar> \<le> \<bar>x\<bar> / 2 ^ 53 + 2 powr (- 1075)"
proof (cases "x = 0")
  case True
  then show ?thesis
    by (simp add: round_double_0)
next
  case False
  have "\<bar>round_double x - x\<bar> \<le> 2 powr of_int (ulp_exponent x) / 2"
    by (rule round_double_err)
  also have "\<dots> \<le> (\<bar>x\<bar> / 2 ^ 52 + 2 powr (- 1074)) / 2"
    using ulp_le [OF False] by (intro divide_right_mono) simp_all
  also have "\<dots> = \<bar>x\<bar> / 2 ^ 53 + 2 powr (- 1075)"
  proof -
    have "(2::real) powr (- 1074) / 2 = 2 powr (- 1074 - 1)"
      by (simp only: powr_diff) simp
    then show ?thesis
      by (simp add: add_divide_distrib)
  qed
  finally show ?thesis .
qed

section \<open>Bounds on pi and on the cosine\<close>

lemma arctan_term_antimono:
  assumes "0 \<le> x" and "x \<le> 1"
  shows "arctan_term x (Suc k) \<le> arctan_term x k"
proof -
  have "x ^ (Suc k * 2 + 1) \<le> x ^ (k * 2 + 1)"
    using assms by (intro power_decreasing) simp_all
  moreover have "1 / real (Suc k * 2 + 1) \<le> 1 / real (k * 2 + 1)"
    by (intro divide_left_mono) simp_all
  moreover have "0 \<le> x ^ (Suc k * 2 + 1)"
    using assms by simp
  ultimately have "1 / real (Suc k * 2 + 1) * x ^ (Suc k * 2 + 1)
      \<le> 1 / real (k * 2 + 1) * x ^ (k * 2 + 1)"
    by (intro mult_mono) simp_all
  then show ?thesis
    by (simp only: arctan_term_def)
qed

lemma arctan_partial_sums:
  assumes "0 \<le> x" and "x \<le> 1"
  shows "(\<Sum>i<2 * n. (- 1) ^ i * arctan_term x i) \<le> arctan x"
    and "arctan x \<le> (\<Sum>i<2 * n + 1. (- 1) ^ i * arctan_term x i)"
proof -
  have z: "arctan_term x \<longlonglongrightarrow> 0"
    unfolding arctan_term_def using assms by (intro zeroseq_arctan_series) simp
  have p: "\<And>k. 0 \<le> arctan_term x k"
    using assms by (simp add: arctan_term_def)
  have m: "\<And>k. arctan_term x (Suc k) \<le> arctan_term x k"
    using assms by (rule arctan_term_antimono)
  have s: "arctan x = (\<Sum>k. (- 1) ^ k * arctan_term x k)"
    unfolding arctan_term_def using assms by (intro arctan_series) simp
  show "(\<Sum>i<2 * n. (- 1) ^ i * arctan_term x i) \<le> arctan x"
    unfolding s by (rule summable_Leibniz'(2) [OF z p m])
  show "arctan x \<le> (\<Sum>i<2 * n + 1. (- 1) ^ i * arctan_term x i)"
    unfolding s by (rule summable_Leibniz'(4) [OF z p m])
qed

lemma arctan_fifth_lower:
  "(\<Sum>i<14. (- 1) ^ i * arctan_term (1 / 5) i) \<le> arctan (1 / 5)"
  using arctan_partial_sums(1) [of "1 / 5" 7] by simp

lemma arctan_fifth_upper:
  "arctan (1 / 5) \<le> (\<Sum>i<15. (- 1) ^ i * arctan_term (1 / 5) i)"
  using arctan_partial_sums(2) [of "1 / 5" 7] by simp

lemma arctan_239_lower:
  "(\<Sum>i<4. (- 1) ^ i * arctan_term (1 / 239) i) \<le> arctan (1 / 239)"
  using arctan_partial_sums(1) [of "1 / 239" 2] by simp

lemma arctan_239_upper:
  "arctan (1 / 239) \<le> (\<Sum>i<5. (- 1) ^ i * arctan_term (1 / 239) i)"
  using arctan_partial_sums(2) [of "1 / 239" 2] by simp

lemma pi_machin: "pi = 16 * arctan (1 / 5) - 4 * arctan (1 / 239)"
  using machin by simp

lemma pi_lower: "math_pi + 21 / 20 / 2 ^ 53 \<le> pi"
proof -
  have "math_pi + 21 / 20 / 2 ^ 53
      \<le> 16 * (\<Sum>i<14. (- 1) ^ i * arctan_term (1 / 5) i)
        - 4 * (\<Sum>i<5. (- 1) ^ i * arctan_term (1 / 239) i)"
    by (simp add: math_pi_def arctan_term_def eval_nat_numeral)
  also have "\<dots> \<le> 16 * arctan (1 / 5) - 4 * arctan (1 / 239)"
    using arctan_fifth_lower arctan_239_upper by linarith
  finally show ?thesis
    by (simp only: pi_machin)
qed

lemma pi_upper: "pi \<le> math_pi + 5 / 4 / 2 ^ 53"
proof -
  have "16 * arctan (1 / 5) - 4 * arctan (1 / 239)
      \<le> 16 * (\<Sum>i<15. (- 1) ^ i * arctan_term (1 / 5) i)
        - 4 * (\<Sum>i<4. (- 1) ^ i * arctan_term (1 / 239) i)"
    using arctan_fifth_upper arctan_239_lower by linarith
  also have "\<dots> \<le> math_pi + 5 / 4 / 2 ^ 53"
    by (simp add: math_pi_def arctan_term_def eval_nat_numeral)
  finally show ?thesis
    by (simp only: pi_machin)
qed

lemma two_powr_neg: "(2::real) powr (- real n) = 1 / 2 ^ n"
  by (simp add: powr_minus powr_realpow inverse_eq_divide)

lemma ulp_exponent_small:
  assumes "1 / 2 ^ Suc n \<le> x" and "x < 1 / 2 ^ n" and "n < 1022"
  shows "ulp_exponent x = - int (n + 53)"
proof -
  have pos: "0 < x"
    using assms(1) by (rule less_le_trans [rotated]) simp
  have "(2::real) powr of_int (- int (Suc n)) = 1 / 2 ^ Suc n"
    using two_powr_neg [of "Suc n"] by simp
  moreover have "(2::real) powr of_int (- int (Suc n) + 1) = 1 / 2 ^ n"
    using two_powr_neg [of n] by simp
  ultimately have "\<lfloor>log 2 x\<rfloor> = - int (Suc n)"
    using assms pos floor_log_eq_powr_iff [of x 2 "- int (Suc n)"] by simp
  then show ?thesis
    using assms(3) pos by (simp add: ulp_exponent_def)
qed

lemma round_double_small:
  assumes "1 / 2 ^ Suc n \<le> x" and "x < 1 / 2 ^ n" and "n < 1022"
  shows "round_double x = of_int (round_even (x * 2 ^ (n + 53))) / 2 ^ (n + 53)"
proof -
  have "(2::real) powr of_int (- int (n + 53)) = 1 / 2 ^ (n + 53)"
    using two_powr_neg [of "n + 53"] by simp
  then show ?thesis
    using ulp_exponent_small [OF assms] by (simp add: round_double_def)
qed

lemma round_double_unit:
  assumes "1 \<le> x" and "x < 2"
  shows "round_double x = of_int (round_even (x * 2 ^ 52)) / 2 ^ 52"
proof -
  have "\<lfloor>log 2 x\<rfloor> = 0"
    using assms floor_log_eq_powr_iff [of x 2 0] by simp
  then have u: "ulp_exponent x = - 52"
    using assms by (simp add: ulp_exponent_def)
  have p: "(2::real) powr of_int (- 52) = 1 / 2 ^ 52"
    using two_powr_neg [of 52] by simp
  show ?thesis
    by (simp only: round_double_def u p) simp
qed

lemma sin_lower:
  fixes y :: real
  assumes "0 \<le> y"
  shows "y - y ^ 3 / 6 \<le> sin y"
proof -
  have "\<bar>sin y - (\<Sum>m<3. sin_coeff m * y ^ m)\<bar> \<le> inverse (fact 3) * \<bar>y\<bar> ^ 3"
    by (rule Maclaurin_sin_bound)
  moreover have "(\<Sum>m<3. sin_coeff m * y ^ m) = y"
    by (simp add: sin_coeff_def eval_nat_numeral)
  moreover have "inverse (fact 3) * \<bar>y\<bar> ^ 3 = y ^ 3 / 6"
    using assms by (simp add: eval_nat_numeral)
  ultimately show ?thesis
    by linarith
qed

lemma cos_half_math_pi:
  shows "41 / 40 / 2 ^ 54 \<le> cos (math_pi / 2)" and "cos (math_pi / 2) \<le> 5 / 4 / 2 ^ 54"
proof -
  define y where "y = (pi - math_pi) / 2"
  have c: "cos (math_pi / 2) = sin y"
  proof -
    have "math_pi / 2 = pi / 2 - y"
      by (simp add: y_def field_simps)
    then show ?thesis
      by (simp only: cos_pi_minus sin_cos_eq [symmetric] cos_sin_eq) (simp add: sin_cos_eq)
  qed
  have lo: "21 / 20 / 2 ^ 54 \<le> y"
    using pi_lower by (simp add: y_def)
  have hi: "y \<le> 5 / 4 / 2 ^ 54"
    using pi_upper by (simp add: y_def)
  have pos: "0 \<le> y"
    using lo by (rule order_trans [rotated]) simp
  have "sin y \<le> y"
    using pos by (rule sin_x_le_x)
  then show "cos (math_pi / 2) \<le> 5 / 4 / 2 ^ 54"
    using hi c by linarith
  have "y ^ 3 \<le> (5 / 4 / 2 ^ 54) ^ 3"
    using hi pos by (rule power_mono)
  then have "y - (5 / 4 / 2 ^ 54) ^ 3 / 6 \<le> y - y ^ 3 / 6"
    by simp
  also have "\<dots> \<le> sin y"
    using pos by (rule sin_lower)
  finally have "21 / 20 / 2 ^ 54 - (5 / 4 / 2 ^ 54) ^ 3 / 6 \<le> sin y"
    using lo by linarith
  moreover have "(41::real) / 40 / 2 ^ 54 \<le> 21 / 20 / 2 ^ 54 - (5 / 4 / 2 ^ 54) ^ 3 / 6"
    by (simp add: power_divide)
  ultimately show "41 / 40 / 2 ^ 54 \<le> cos (math_pi / 2)"
    using c by linarith
qed

lemma round_half_math_pi: "round_double (math_pi * (1 / 2)) = math_pi / 2"
proof -
  have "math_pi * (1 / 2) * 2 ^ 52 = real_of_int 7074237752028440"
    by (simp add: math_pi_def)
  then have "round_even (math_pi * (1 / 2) * 2 ^ 52) = 7074237752028440"
    by (simp only: round_even_of_int)
  moreover have "1 \<le> math_pi * (1 / 2)" and "math_pi * (1 / 2) < 2"
    by (simp_all add: math_pi_def)
  ultimately have "round_double (math_pi * (1 / 2)) = real_of_int 7074237752028440 / 2 ^ 52"
    by (simp only: round_double_unit)
  then show ?thesis
    by (simp add: math_pi_def)
qed

lemma math_cos_half_math_pi:
  shows "1 / 2 ^ 54 < math_cos (math_pi / 2)" and "math_cos (math_pi / 2) < 3 / 2 / 2 ^ 54"
proof -
  let ?v = "cos (math_pi / 2)"
  have lo: "41 / 40 / 2 ^ 54 \<le> ?v"
    by (rule cos_half_math_pi(1))
  have hi: "?v \<le> 5 / 4 / 2 ^ 54"
    by (rule cos_half_math_pi(2))
  have "1 / 2 ^ Suc 53 \<le> ?v"
    using lo by (rule order_trans [rotated]) simp
  moreover have "?v < 1 / 2 ^ 53"
    using hi by (rule le_less_trans) simp
  ultimately have "round_double ?v = of_int (round_even (?v * 2 ^ (53 + 53))) / 2 ^ (53 + 53)"
    by (rule round_double_small) simp
  then have c: "math_cos (math_pi / 2) * 2 ^ 106 = of_int (round_even (?v * 2 ^ 106))"
    by (simp add: math_cos_def)
  have "\<bar>of_int (round_even (?v * 2 ^ 106)) - ?v * 2 ^ 106\<bar> \<le> 1 / 2"
    by (rule round_even_err)
  then have e: "\<bar>math_cos (math_pi / 2) * 2 ^ 106 - ?v * 2 ^ 106\<bar> \<le> 1 / 2"
    by (simp only: c)
  have "41 / 40 * 2 ^ 52 \<le> ?v * 2 ^ 106"
    using lo by (simp add: field_simps)
  moreover have "(2::real) ^ 52 + 1 / 2 < 41 / 40 * 2 ^ 52"
    by simp
  ultimately have "2 ^ 52 < math_cos (math_pi / 2) * 2 ^ 106"
    using e by linarith
  then show "1 / 2 ^ 54 < math_cos (math_pi / 2)"
    by (simp add: field_simps)
  have "?v * 2 ^ 106 \<le> 5 / 4 * 2 ^ 52"
    using hi by (simp add: field_simps)
  moreover have "(5::real) / 4 * 2 ^ 52 + 1 / 2 < 3 / 2 * 2 ^ 52"
    by simp
  ultimately have "math_cos (math_pi / 2) * 2 ^ 106 < 3 / 2 * 2 ^ 52"
    using e by linarith
  then show "math_cos (math_pi / 2) < 3 / 2 / 2 ^ 54"
    by (simp add: field_simps)
qed

lemma round_one_minus:
  assumes "1 / 2 ^ 54 < c" and "c < 3 / 2 / 2 ^ 54"
  shows "round_double (1 - c) = 1 - 1 / 2 ^ 53"
proof -
  have "1 / 2 ^ Suc 0 \<le> 1 - c"
    using assms(2) by simp
  moreover have "1 - c < 1 / 2 ^ 0"
    using assms(1) by (simp add: less_trans [rotated])
  ultimately have r: "round_double (1 - c) = of_int (round_even ((1 - c) * 2 ^ (0 + 53))) / 2 ^ (0 + 53)"
    by (rule round_double_small) simp
  have "1 / 2 < c * 2 ^ 53" and "c * 2 ^ 53 < 3 / 4"
    using assms by (simp_all add: field_simps)
  then have "real_of_int (2 ^ 53 - 1) - 1 / 2 < (1 - c) * 2 ^ 53"
    and "(1 - c) * 2 ^ 53 < real_of_int (2 ^ 53 - 1) + 1 / 2"
    by (simp_all add: left_diff_distrib)
  then have "round_even ((1 - c) * 2 ^ 53) = 2 ^ 53 - 1"
    by (rule round_even_between)
  then show ?thesis
    using r by simp
qed

lemma round_half_of_pred_one: "round_double (0.5 * (1 - 1 / 2 ^ 53)) = 1 / 2 - 1 / 2 ^ 54"
proof -
  let ?x = "0.5 * (1 - 1 / 2 ^ 53) :: real"
  have "1 / 2 ^ Suc 1 \<le> ?x" and "?x < 1 / 2 ^ 1"
    by simp_all
  then have "round_double ?x = of_int (round_even (?x * 2 ^ (1 + 53))) / 2 ^ (1 + 53)"
    by (rule round_double_small) simp
  moreover have "?x * 2 ^ (1 + 53) = real_of_int (2 ^ 53 - 1)"
    by simp
  ultimately have "round_double ?x = real_of_int (2 ^ 53 - 1) / 2 ^ (1 + 53)"
    by (simp only: round_even_of_int)
  then show ?thesis
    by simp
qed

lemma math_pi_no_overflow:
  assumes "0 \<le> t" and "t \<le> 1"
  shows "\<not> float_overflow (math_pi * t)"
proof -
  have "0 \<le> math_pi * t" and "math_pi * t \<le> 4 * 1"
    using assms by (auto simp: math_pi_def intro!: mult_mono)
  then have "\<bar>math_pi * t\<bar> \<le> 4"
    by simp
  then show ?thesis
    by (rule float_overflow_ge) simp
qed

lemma ease_in_out_sine_double_half: "ease_in_out_sine_double (1 / 2) = Inr (1 / 2 - 1 / 2 ^ 54)"
proof -
  have "\<not> float_overflow (math_pi * (1 / 2))"
    by (rule math_pi_no_overflow) simp_all
  moreover have "round_double (1 - math_cos (math_pi / 2)) = 1 - 1 / 2 ^ 53"
    by (rule round_one_minus [OF math_cos_half_math_pi])
  ultimately show ?thesis
    by (simp only: ease_in_out_sine_double_def round_half_math_pi round_half_of_pred_one if_False)
qed

section \<open>The rounded timing function is close to the exact one\<close>

lemma round_double_bound:
  assumes "\<bar>x\<bar> \<le> b"
  shows "\<bar>round_double x - x\<bar> \<le> b / 2 ^ 53 + 1 / 2 ^ 1075"
proof -
  have "\<bar>round_double x - x\<bar> \<le> \<bar>x\<bar> / 2 ^ 53 + 2 powr (- 1075)"
    by (rule round_double_rel)
  moreover have "\<bar>x\<bar> / 2 ^ 53 \<le> b / 2 ^ 53"
    using assms by (intro divide_right_mono) simp_all
  moreover have "(2::real) powr (- 1075) = 1 / 2 ^ 1075"
    using two_powr_neg [of 1075] by simp
  ultimately show ?thesis
    by linarith
qed

lemma cos_lipschitz: "\<bar>cos x - cos y\<bar> \<le> \<bar>x - y\<bar>" for x y :: real
proof -
  have "\<bar>cos x - cos y\<bar> = 2 * \<bar>sin ((x + y) / 2)\<bar> * \<bar>sin ((y - x) / 2)\<bar>"
    by (simp add: cos_diff_cos abs_mult)
  also have "\<dots> \<le> 2 * 1 * \<bar>(y - x) / 2\<bar>"
    by (intro mult_mono abs_sin_x_le_abs_x) simp_all
  finally show ?thesis
    by simp
qed

lemma math_pi_close: "\<bar>math_pi - pi\<bar> \<le> 5 / 4 / 2 ^ 53"
  using pi_lower pi_upper by simp

lemma eased_lipschitz: "\<bar>eased x - eased y\<bar> \<le> 2 * \<bar>x - y\<bar>"
proof -
  have "\<bar>cos (pi * x) - cos (pi * y)\<bar> \<le> \<bar>pi * x - pi * y\<bar>"
    by (rule cos_lipschitz)
  also have "\<dots> = pi * \<bar>x - y\<bar>"
    by (simp add: right_diff_distrib [symmetric] abs_mult)
  also have "\<dots> \<le> 4 * \<bar>x - y\<bar>"
    using pi_less_4 by (intro mult_right_mono) simp_all
  finally have "\<bar>cos (pi * x) - cos (pi * y)\<bar> \<le> 4 * \<bar>x - y\<bar>" .
  moreover have "eased x - eased y = (cos (pi * y) - cos (pi * x)) / 2"
    by (simp add: eased_def field_simps)
  ultimately show ?thesis
    by (simp add: abs_minus_commute)
qed

lemma eased_sym: "eased t + eased (1 - t) = 1"
proof -
  have "cos (pi * (1 - t)) = cos (pi - pi * t)"
    by (simp add: algebra_simps)
  also have "\<dots> = - cos (pi * t)"
    by (rule cos_pi_minus)
  finally show ?thesis
    by (simp add: eased_def add_divide_distrib [symmetric])
qed

lemma double_close:
  assumes "\<bar>t\<bar> \<le> 2"
  shows "\<exists>y. ease_in_out_sine_double t = Inr y \<and> \<bar>y - eased t\<bar> \<le> 10 / 2 ^ 53"
proof -
  define e0 :: real where "e0 = 1 / 2 ^ 1075"
  define u :: real where "u = 1 / 2 ^ 53"
  have e0: "0 \<le> e0" "e0 \<le> u / 8"
    by (simp_all add: e0_def u_def)
  have u: "0 < u" "u \<le> 1 / 8"
    by (simp_all add: u_def)
  define a where "a = round_double (math_pi * t)"
  define c where "c = math_cos a"
  define d where "d = round_double (1 - c)"
  define r where "r = round_double (0.5 * d)"
  have mp: "\<bar>math_pi\<bar> \<le> 4"
    by (simp add: math_pi_def)
  have "\<bar>math_pi * t\<bar> = \<bar>math_pi\<bar> * \<bar>t\<bar>"
    by (rule abs_mult)
  also have "\<dots> \<le> 4 * 2"
    using mp assms by (intro mult_mono) simp_all
  finally have na: "\<bar>math_pi * t\<bar> \<le> 8"
    by simp
  then have no: "\<not> float_overflow (math_pi * t)"
    by (rule float_overflow_ge) simp
  have A: "\<bar>a - math_pi * t\<bar> \<le> 8 * u + e0"
    using round_double_bound [OF na] by (simp add: a_def u_def e0_def)
  have "\<bar>math_pi * t - pi * t\<bar> = \<bar>math_pi - pi\<bar> * \<bar>t\<bar>"
    by (simp add: left_diff_distrib [symmetric] abs_mult)
  also have "\<dots> \<le> 5 / 4 / 2 ^ 53 * 2"
    using math_pi_close assms by (intro mult_mono) simp_all
  finally have P: "\<bar>math_pi * t - pi * t\<bar> \<le> 5 / 2 * u"
    by (simp add: u_def)
  have "\<bar>cos a - cos (pi * t)\<bar> \<le> \<bar>a - pi * t\<bar>"
    by (rule cos_lipschitz)
  then have C: "\<bar>cos a - cos (pi * t)\<bar> \<le> 21 / 2 * u + e0"
    using A P by linarith
  have "\<bar>cos a\<bar> \<le> 1"
    by (rule abs_cos_le_one)
  then have C': "\<bar>c - cos a\<bar> \<le> u + e0"
    using round_double_bound [of "cos a" 1] by (simp add: c_def math_cos_def u_def e0_def)
  have "\<bar>1 - c\<bar> \<le> 3"
    using C' \<open>\<bar>cos a\<bar> \<le> 1\<close> e0 u by linarith
  then have D: "\<bar>d - (1 - c)\<bar> \<le> 3 * u + e0"
    using round_double_bound [of "1 - c" 3] by (simp add: d_def u_def e0_def)
  have "\<bar>0.5 * d\<bar> \<le> 2"
    using D \<open>\<bar>1 - c\<bar> \<le> 3\<close> e0 u by simp
  then have R: "\<bar>r - 0.5 * d\<bar> \<le> 2 * u + e0"
    using round_double_bound [of "0.5 * d" 2] by (simp add: r_def u_def e0_def)
  have "\<bar>d - (1 - cos (pi * t))\<bar> \<le> 29 / 2 * u + 3 * e0"
    using D C' C by linarith
  moreover have "r - eased t = (r - 0.5 * d) + (d - (1 - cos (pi * t))) / 2"
    by (simp add: eased_def field_simps)
  ultimately have "\<bar>r - eased t\<bar> \<le> 10 * u"
    using R e0 by argo
  moreover have "ease_in_out_sine_double t = Inr r"
    using no by (simp add: ease_in_out_sine_double_def r_def d_def c_def a_def)
  ultimately show ?thesis
    by (simp add: u_def)
qed

section \<open>The claims\<close>

text \<open>
  C1, as the code has it. For every \<open>n_frames = N \<ge> 2\<close> such that \<open>N - 1\<close> converts to a
  float (\<open>N - 1 < 2^1024 - 2^970\<close>), the angle loop completes, and the list it builds has
  length \<open>N\<close>, first element 0, last element 360, is non-decreasing and has all its elements
  in the closed interval from 0 to 360.
\<close>

theorem angle_sequence:
  assumes "2 \<le> N" and "real_of_int (N - 1) < 2 ^ 1024 - 2 ^ 970"
  shows "\<exists>angles. build_angles N = Inr angles \<and>
           int (length angles) = N \<and>
           angles ! 0 = 0 \<and>
           angles ! (length angles - 1) = 360 \<and>
           sorted angles \<and>
           (\<forall>a \<in> set angles. 0 \<le> a \<and> a \<le> 360)"
proof -
  let ?angles = "map (angle_at N) [0 .. N - 1]"
  have ne: "N \<noteq> 1"
    using assms by simp
  have built: "build_angles N = Inr ?angles"
    using assms by (rule build_angles_ok)
  have n: "int (length ?angles) = N"
    using assms by simp
  have first: "?angles ! 0 = 0"
    using assms by (simp add: angle_at_first)
  have "?angles ! (nat N - 1) = angle_at N (N - 1)"
    using assms by (simp add: nat_diff_distrib)
  then have last: "?angles ! (length ?angles - 1) = 360"
    using ne by (simp add: angle_at_last)
  have srt: "sorted ?angles"
    using assms(1) by (rule sorted_angles)
  have rng: "\<forall>a \<in> set ?angles. 0 \<le> a \<and> a \<le> 360"
    using angle_at_range by auto
  from built n first last srt rng show ?thesis
    by blast
qed

theorem angle_sequence_witness:
  "(2::int) \<le> 3 \<and> real_of_int (3 - 1) < 2 ^ 1024 - 2 ^ 970 \<and>
   (\<exists>angles. build_angles 3 = Inr angles \<and> int (length angles) = 3 \<and> angles ! 0 = 0 \<and>
      angles ! (length angles - 1) = 360 \<and> sorted angles \<and>
      (\<forall>a \<in> set angles. 0 \<le> a \<and> a \<le> 360))"
  using angle_sequence [of 3] by simp

text \<open>
  C1, as stated (for every \<open>N \<ge> 2\<close>), fails at \<open>N = 2^1024 + 1\<close>: \<open>float(n_frames - 1)\<close>
  raises \<open>OverflowError\<close> in the first pass of the loop, and no angle list is built.
\<close>

theorem angle_sequence_overflow_counterexample:
  "(2::int) \<le> 2 ^ 1024 + 1 \<and> build_angles (2 ^ 1024 + 1) = Inl OverflowError"
proof -
  have "build_angles (2 ^ 1024 + 1) = Inl OverflowError"
    by (rule build_angles_overflow) simp_all
  then show ?thesis
    by simp
qed



text \<open>
  C7. The timing function is non-decreasing on the unit interval: from
  \<open>0 \<le> t1 < t2 \<le> 1\<close> follows that it returns at both, and what it returns at \<open>t1\<close> is at
  most what it returns at \<open>t2\<close>.
\<close>

theorem timing_monotone:
  assumes "0 \<le> t1" and "t1 < t2" and "t2 \<le> 1"
  shows "\<exists>y1 y2. ease_in_out_sine t1 = Inr y1 \<and> ease_in_out_sine t2 = Inr y2 \<and> y1 \<le> y2"
proof -
  have "ease_in_out_sine t1 = Inr (eased t1)"
    using assms by (intro ease_in_out_sine_unit) simp_all
  moreover have "ease_in_out_sine t2 = Inr (eased t2)"
    using assms by (intro ease_in_out_sine_unit) simp_all
  moreover have "eased t1 \<le> eased t2"
    using assms by (intro eased_mono) simp_all
  ultimately show ?thesis
    by blast
qed

theorem timing_monotone_witness:
  "(0::real) \<le> 1 / 4 \<and> (1 / 4 :: real) < 1 / 2 \<and> (1 / 2 :: real) \<le> 1 \<and>
   (\<exists>y1 y2. ease_in_out_sine (1 / 4) = Inr y1 \<and> ease_in_out_sine (1 / 2) = Inr y2 \<and> y1 \<le> y2)"
  using timing_monotone [of "1 / 4" "1 / 2"] by simp

text \<open>
  C8, as the code has it. In double precision the timing function is symmetric about one
  half within tolerance: for every \<open>t\<close> of the unit interval, what it returns at \<open>t\<close> and
  what it returns at \<open>1 - t\<close> (the rounded difference) add up to 1 within \<open>2^-48\<close>; and
  what it returns at one half is one half within \<open>2^-54\<close>.
\<close>

theorem timing_symmetric_within_tolerance:
  assumes "0 \<le> t" and "t \<le> 1"
  shows "(\<exists>y1 y2. ease_in_out_sine_double t = Inr y1 \<and>
            ease_in_out_sine_double (round_double (1 - t)) = Inr y2 \<and>
            \<bar>y1 + y2 - 1\<bar> \<le> 1 / 2 ^ 48) \<and>
         (\<exists>y. ease_in_out_sine_double (1 / 2) = Inr y \<and> \<bar>y - 1 / 2\<bar> \<le> 1 / 2 ^ 54)"
proof -
  define t' where "t' = round_double (1 - t)"
  have "\<bar>1 - t\<bar> \<le> 1"
    using assms by simp
  then have T: "\<bar>t' - (1 - t)\<bar> \<le> 1 / 2 ^ 53 + 1 / 2 ^ 1075"
    using round_double_bound [of "1 - t" 1] by (simp add: t'_def)
  have small: "(1::real) / 2 ^ 1075 \<le> 1 / 2 ^ 53"
    by simp
  have "(1::real) / 2 ^ 53 \<le> 1 / 2"
    by simp
  then have "\<bar>t'\<bar> \<le> 2"
    using T small \<open>\<bar>1 - t\<bar> \<le> 1\<close> by linarith
  then obtain y2 where y2: "ease_in_out_sine_double t' = Inr y2" "\<bar>y2 - eased t'\<bar> \<le> 10 / 2 ^ 53"
    using double_close by blast
  have "\<bar>t\<bar> \<le> 2"
    using assms by simp
  then obtain y1 where y1: "ease_in_out_sine_double t = Inr y1" "\<bar>y1 - eased t\<bar> \<le> 10 / 2 ^ 53"
    using double_close by blast
  have "\<bar>eased t' - eased (1 - t)\<bar> \<le> 2 * \<bar>t' - (1 - t)\<bar>"
    by (rule eased_lipschitz)
  moreover have "2 * (1 / 2 ^ 53 + 1 / 2 ^ 1075) \<le> (4::real) / 2 ^ 53"
    by simp
  ultimately have L: "\<bar>eased t' - eased (1 - t)\<bar> \<le> 4 / 2 ^ 53"
    using T by argo
  have "y1 + y2 - 1 = (y1 - eased t) + (y2 - eased t') + (eased t' - eased (1 - t))"
    using eased_sym [of t] by simp
  then have "\<bar>y1 + y2 - 1\<bar> \<le> 10 / 2 ^ 53 + 10 / 2 ^ 53 + 4 / 2 ^ 53"
    using y1(2) y2(2) L by linarith
  also have "\<dots> \<le> (1::real) / 2 ^ 48"
    by simp
  finally have "\<exists>y1 y2. ease_in_out_sine_double t = Inr y1 \<and>
      ease_in_out_sine_double (round_double (1 - t)) = Inr y2 \<and> \<bar>y1 + y2 - 1\<bar> \<le> 1 / 2 ^ 48"
    using y1(1) y2(1) by (auto simp: t'_def)
  moreover have "\<exists>y. ease_in_out_sine_double (1 / 2) = Inr y \<and> \<bar>y - 1 / 2\<bar> \<le> 1 / 2 ^ 54"
  proof (intro exI conjI)
    show "ease_in_out_sine_double (1 / 2) = Inr (1 / 2 - 1 / 2 ^ 54)"
      by (rule ease_in_out_sine_double_half)
    show "\<bar>(1 / 2 - 1 / 2 ^ 54) - 1 / 2\<bar> \<le> (1::real) / 2 ^ 54"
      by simp
  qed
  ultimately show ?thesis
    by (rule conjI)
qed

theorem timing_symmetric_within_tolerance_witness:
  "(0::real) \<le> 3 / 10 \<and> (3 / 10 :: real) \<le> 1 \<and>
   (\<exists>y1 y2. ease_in_out_sine_double (3 / 10) = Inr y1 \<and>
      ease_in_out_sine_double (round_double (1 - 3 / 10)) = Inr y2 \<and>
      \<bar>y1 + y2 - 1\<bar> \<le> 1 / 2 ^ 48) \<and>
   (\<exists>y. ease_in_out_sine_double (1 / 2) = Inr y \<and> \<bar>y - 1 / 2\<bar> \<le> 1 / 2 ^ 54)"
  using timing_symmetric_within_tolerance [of "3 / 10"] by simp

text \<open>
  C8, as stated (the value at one half is one half, the two values add up to 1), fails at
  \<open>t = 0.5\<close>: in double precision the timing function returns \<open>1/2 - 2^-54\<close> there
  (0.49999999999999994), and twice that is not 1.
\<close>

theorem timing_symmetric_exact_counterexample:
  "ease_in_out_sine_double (1 / 2) = Inr (1 / 2 - 1 / 2 ^ 54) \<and>
   ease_in_out_sine_double (1 / 2) \<noteq> Inr (1 / 2) \<and>
   (1 / 2 - 1 / 2 ^ 54) + (1 / 2 - 1 / 2 ^ 54) \<noteq> (1::real)"
  by (simp add: ease_in_out_sine_double_half)


text \<open>
  C10, as the code has it. For every \<open>t\<close>, inside the unit interval or not, whose product
  with \<open>math.pi\<close> does not overflow, the timing function returns a value between 0 and 1;
  when the product overflows, it raises \<open>ValueError\<close>.
\<close>

theorem timing_in_unit_interval_or_raises:
  "(\<not> float_overflow (pi * t) \<longrightarrow>
      (\<exists>y. ease_in_out_sine t = Inr y \<and> 0 \<le> y \<and> y \<le> 1)) \<and>
   (float_overflow (pi * t) \<longrightarrow> ease_in_out_sine t = Inl ValueError)"
  using eased_range [of t] by (simp add: ease_in_out_sine_eased ease_in_out_sine_raises)

theorem timing_in_unit_interval_or_raises_witness:
  "\<not> float_overflow (pi * (- 3)) \<and>
   (\<exists>y. ease_in_out_sine (- 3) = Inr y \<and> 0 \<le> y \<and> y \<le> 1)"
proof -
  have "\<bar>pi * (- 3)\<bar> \<le> 12"
    using pi_less_4 pi_gt_zero by simp
  then have "\<not> float_overflow (pi * (- 3))"
    by (rule float_overflow_ge) simp
  then show ?thesis
    using timing_in_unit_interval_or_raises [of "- 3"] by simp
qed

text \<open>
  C10, as stated (a value for every real \<open>t\<close>, never an exception), fails at \<open>t = 10^308\<close>:
  \<open>math.pi * t\<close> overflows and \<open>math.cos\<close> raises \<open>ValueError\<close>.
\<close>

theorem timing_raises_counterexample: "ease_in_out_sine (10 ^ 308) = Inl ValueError"
proof -
  have "(2::real) ^ 1024 - 2 ^ 970 \<le> 2 * 10 ^ 308"
    by simp
  also have "\<dots> \<le> pi * 10 ^ 308"
    using pi_ge_two by simp
  finally have "float_overflow (pi * 10 ^ 308)"
    by (simp add: float_overflow_def)
  then show ?thesis
    by (rule ease_in_out_sine_raises)
qed

text \<open>
  C3, as the code has it. The function has no special case for a single frame: with
  \<open>n_frames = 1\<close> and an input that decodes, the first pass of the angle loop divides by
  \<open>float(n_frames - 1) = 0.0\<close> and the call ends with \<open>ZeroDivisionError\<close>, before any frame
  is rotated, with nothing written and nothing printed.
\<close>

theorem single_frame_division_by_zero:
  assumes "load_image P w input_path = Inr original"
  shows "create_eased_rotating_gif P w input_path output_path 1 frame_duration_ms loop_forever
           = (Inl ZeroDivisionError, w)"
  using assms build_angles_single by (rule create_angles_fail)

theorem single_frame_division_by_zero_witness:
  "load_image demo_pil demo_world ''icon.png'' = Inr (64, 48) \<and>
   create_eased_rotating_gif demo_pil demo_world ''icon.png'' ''out.gif'' 1 50 False
     = (Inl ZeroDivisionError, demo_world)"
  using single_frame_division_by_zero [OF demo_load] demo_load by simp

text \<open>
  C3, as stated (a call with \<open>n_frames = 1\<close> raises no division-by-zero error), fails on
  a 64 by 48 icon.
\<close>

theorem single_frame_raises_counterexample:
  "create_eased_rotating_gif demo_pil demo_world ''icon.png'' ''out.gif'' 1 100 True
     = (Inl ZeroDivisionError, demo_world)"
  using demo_load build_angles_single by (rule create_angles_fail)

text \<open>
  C4, as the code has it. The function does not check \<open>n_frames\<close>. With \<open>n_frames < 1\<close>
  the call fails and leaves the world as it was, nothing written and nothing printed: with
  the error of the decoder when the input does not decode, and otherwise with
  \<open>IndexError\<close>, raised by \<open>frames[0]\<close> in step 4 after the image was loaded and both
  loops ran over an empty range.
\<close>

theorem no_frames_fails_unwritten:
  assumes "n_frames < 1"
  shows "create_eased_rotating_gif P w input_path output_path n_frames frame_duration_ms loop_forever
           = (case load_image P w input_path of
                Inl e \<Rightarrow> (Inl e, w)
              | Inr original \<Rightarrow> (Inl IndexError, w))"
proof (cases "load_image P w input_path")
  case (Inl e)
  then show ?thesis
    by (simp add: create_load_fails)
next
  case (Inr original)
  moreover have "build_angles n_frames = Inr []"
    using assms by (rule build_angles_empty)
  ultimately show ?thesis
    by (simp add: create_no_frames)
qed

theorem no_frames_fails_unwritten_witness:
  "(-2::int) < 1 \<and>
   create_eased_rotating_gif demo_pil demo_world ''icon.png'' ''out.gif'' (-2) 100 True
     = (Inl IndexError, demo_world)"
  using no_frames_fails_unwritten [of "-2" demo_pil demo_world "''icon.png''" "''out.gif''" 100 True]
  by (simp add: demo_load)

text \<open>
  C4, as stated (a configuration error, reported immediately), fails at \<open>n_frames = 0\<close>:
  the error is the \<open>IndexError\<close> of step 4 when the input decodes, and it is the error of
  the decoder, raised first, when the input is missing.
\<close>

theorem no_frames_error_counterexample:
  "fst (create_eased_rotating_gif demo_pil demo_world ''icon.png'' ''out.gif'' 0 100 True)
     = Inl IndexError \<and>
   fst (create_eased_rotating_gif demo_pil demo_world ''missing.png'' ''out.gif'' 0 100 True)
     = Inl FileNotFoundError"
  by (simp add: create_no_frames [OF demo_load] build_angles_empty
        create_load_fails [OF demo_load_missing])

text \<open>
  C5. Whenever the call succeeds, the file at the output path is what \<open>Image.save\<close> encodes
  for arguments whose \<open>loop\<close> is 0 when \<open>loop_forever\<close> is true and 1 when it is false.
\<close>

theorem loop_directive_written:
  assumes "fst (create_eased_rotating_gif P w input_path output_path n_frames frame_duration_ms loop_forever) = Inr ()"
  shows "\<exists>args.
           files (snd (create_eased_rotating_gif P w input_path output_path n_frames
                         frame_duration_ms loop_forever)) output_path = Some (encode P args) \<and>
           loop args = (if loop_forever then 0 else 1)"
proof -
  from create_success [OF assms] obtain f0 others where
    "files (snd (create_eased_rotating_gif P w input_path output_path n_frames
                   frame_duration_ms loop_forever)) output_path =
       Some (encode P \<lparr>first_frame = f0, save_all = True, append_images = others,
                       optimize = True, format = ''GIF'', duration = frame_duration_ms,
                       loop = loop_param loop_forever\<rparr>)"
    by blast
  then show ?thesis
    by (intro exI conjI, assumption) (simp add: loop_param_def)
qed

theorem loop_directive_written_witness:
  "fst (create_eased_rotating_gif demo_pil demo_world ''icon.png'' ''out.gif'' 3 100 False) = Inr () \<and>
   (\<exists>args.
      files (snd (create_eased_rotating_gif demo_pil demo_world ''icon.png'' ''out.gif'' 3 100 False))
        ''out.gif'' = Some (encode demo_pil args) \<and>
      loop args = 1)"
  using loop_directive_written [OF demo_run_ok] demo_run_ok by simp

text \<open>
  C6. If the input path names no file, or a file that is not a decodable image, the call
  fails with the error of the decoder (\<open>FileNotFoundError\<close>, \<open>UnidentifiedImageError\<close>),
  whatever the other arguments are, and the world is unchanged: the output file is neither
  created nor modified, since loading comes before every other step.
\<close>

theorem decode_failure_first:
  assumes "files w input_path = None \<or>
           (\<exists>content. files w input_path = Some content \<and> open_rgba P content = None)"
  shows "create_eased_rotating_gif P w input_path output_path n_frames frame_duration_ms loop_forever
           = (Inl (if files w input_path = None then FileNotFoundError else UnidentifiedImageError), w)"
proof -
  have "load_image P w input_path =
          Inl (if files w input_path = None then FileNotFoundError else UnidentifiedImageError)"
    using assms by (auto simp: load_image_def)
  then show ?thesis
    by (rule create_load_fails)
qed

theorem decode_failure_first_witness:
  "files demo_world ''missing.png'' = None \<and>
   create_eased_rotating_gif demo_pil demo_world ''missing.png'' ''out.gif'' 24 100 True
     = (Inl FileNotFoundError, demo_world)"
proof -
  have h: "files demo_world ''missing.png'' = None"
    by (simp add: demo_world_def)
  from decode_failure_first [of demo_world "''missing.png''" demo_pil "''out.gif''" 24 100 True] h
  show ?thesis
    by simp
qed

text \<open>
  C9. Let the library's rotation keep the canvas when \<open>expand\<close> is false, for every image
  and every angle. Then in every successful call the frames passed to \<open>Image.save\<close> are the
  frames built from the angle list, there are as many frames as angles and as
  \<open>n_frames\<close>, and every frame has the width and height of the source image.
\<close>

theorem frames_keep_canvas:
  assumes canvas: "\<forall>img theta rs fill.
             size_of P (rotate_image P img theta rs False fill) = size_of P img"
    and ok: "fst (create_eased_rotating_gif P w input_path output_path n_frames
                    frame_duration_ms loop_forever) = Inr ()"
  shows "\<exists>original angles args.
           load_image P w input_path = Inr original \<and>
           build_angles n_frames = Inr angles \<and>
           files (snd (create_eased_rotating_gif P w input_path output_path n_frames
                         frame_duration_ms loop_forever)) output_path = Some (encode P args) \<and>
           first_frame args # append_images args = build_frames P original angles \<and>
           int (length angles) = n_frames \<and>
           int (length (first_frame args # append_images args)) = n_frames \<and>
           (\<forall>f \<in> set (first_frame args # append_images args). size_of P f = size_of P original)"
proof -
  from create_success [OF ok] obtain original angles f0 others where
    ld: "load_image P w input_path = Inr original" and
    ba: "build_angles n_frames = Inr angles" and
    bf: "build_frames P original angles = f0 # others" and
    wr: "files (snd (create_eased_rotating_gif P w input_path output_path n_frames
                   frame_duration_ms loop_forever)) output_path =
          Some (encode P \<lparr>first_frame = f0, save_all = True, append_images = others,
                       optimize = True, format = ''GIF'', duration = frame_duration_ms,
                       loop = loop_param loop_forever\<rparr>)"
    by blast
  let ?args = "\<lparr>first_frame = f0, save_all = True, append_images = others,
                 optimize = True, format = ''GIF'', duration = frame_duration_ms,
                 loop = loop_param loop_forever\<rparr>"
  have fr: "first_frame ?args # append_images ?args = build_frames P original angles"
    using bf by simp
  have "length angles = nat n_frames"
    using ba by (rule build_angles_length)
  moreover have "angles \<noteq> []"
    using bf build_frames_length [of P original angles] by auto
  ultimately have n: "int (length angles) = n_frames"
    by (cases "0 \<le> n_frames") auto
  have n': "int (length (first_frame ?args # append_images ?args)) = n_frames"
    using n build_frames_length [of P original angles] by (simp only: fr)
  have sz: "\<forall>f \<in> set (first_frame ?args # append_images ?args). size_of P f = size_of P original"
    using build_frames_sized [OF canvas, of original angles] by (simp only: fr)
  from ld ba wr fr n n' sz show ?thesis
    by blast
qed

theorem frames_keep_canvas_witness:
  "(\<forall>img theta rs fill.
      size_of demo_pil (rotate_image demo_pil img theta rs False fill) = size_of demo_pil img) \<and>
   fst (create_eased_rotating_gif demo_pil demo_world ''icon.png'' ''out.gif'' 3 100 False) = Inr () \<and>
   (\<exists>original angles args.
      load_image demo_pil demo_world ''icon.png'' = Inr original \<and>
      build_angles 3 = Inr angles \<and>
      files (snd (create_eased_rotating_gif demo_pil demo_world ''icon.png'' ''out.gif'' 3 100 False))
        ''out.gif'' = Some (encode demo_pil args) \<and>
      first_frame args # append_images args = build_frames demo_pil original angles \<and>
      int (length angles) = 3 \<and>
      int (length (first_frame args # append_images args)) = 3 \<and>
      (\<forall>f \<in> set (first_frame args # append_images args).
         size_of demo_pil f = size_of demo_pil original))"
  using frames_keep_canvas [OF demo_canvas demo_run_ok] demo_canvas demo_run_ok
  by (intro conjI) assumption+

end
